theory Spec2Isabelle
  imports Complex_Main "HOL-Library.Sublist" "HOL-Library.AList"
begin

section \<open>Python string operations used by the plugin\<close>

text \<open>
  A Python \<open>str\<close> is modelled as a \<open>string\<close> whose characters are the code points
  below 256. The operations below are the ones the plugin calls: \<open>str.strip()\<close>,
  \<open>str.isspace()\<close>, \<open>str.replace(old, new)\<close>, \<open>str.split(sep)\<close>,
  \<open>sep.join(parts)\<close> and the one regular expression of the source.
\<close>

definition is_space :: "char \<Rightarrow> bool" where
  \<comment> \<open>the code points below 256 that Python counts as whitespace\<close>
  "is_space c = (of_char c \<in> set [9, 10, 11, 12, 13, 28, 29, 30, 31, 32, 133, 160 :: nat])"

definition strip :: "string \<Rightarrow> string" where
  "strip s = rev (dropWhile is_space (rev (dropWhile is_space s)))"

definition isspace :: "string \<Rightarrow> bool" where
  "isspace s = (s \<noteq> [] \<and> list_all is_space s)"

fun lazy_until :: "string \<Rightarrow> string \<Rightarrow> string option" where
  \<comment> \<open>the text matched by \<open>(.*?)\<close> when the literal \<open>pat\<close> follows it: everything
      before the first occurrence of \<open>pat\<close>, or no match\<close>
  "lazy_until pat [] = (if pat = [] then Some [] else None)"
| "lazy_until pat (c # cs) =
     (if prefix pat (c # cs) then Some []
      else map_option ((#) c) (lazy_until pat cs))"

definition match_think :: "string \<Rightarrow> string option" where
  \<comment> \<open>group 1 of \<open>re.match(r"<think>(.*?)</think>", content, flags=re.DOTALL)\<close>;
      \<open>None\<close> when the expression does not match at the start of \<open>content\<close>\<close>
  "match_think content =
     (if prefix ''<think>'' content
      then lazy_until ''</think>'' (drop (length ''<think>'') content)
      else None)"

function (sequential) replace_str :: "string \<Rightarrow> string \<Rightarrow> string \<Rightarrow> string" where
  \<comment> \<open>\<open>s.replace(old, new)\<close>: every non-overlapping occurrence, left to right\<close>
  "replace_str [] new s = new @ concat (map (\<lambda>c. c # new) s)"
| "replace_str old new [] = []"
| "replace_str old new (c # cs) =
     (if prefix old (c # cs)
      then new @ replace_str old new (drop (length old) (c # cs))
      else c # replace_str old new cs)"
  by pat_completeness auto
termination
  by (relation "measure (\<lambda>(old, new, s). length s)") auto

function split_on :: "string \<Rightarrow> string \<Rightarrow> string \<Rightarrow> string list" where
  \<comment> \<open>the pieces of \<open>s.split(sep)\<close>, with the piece being read in \<open>acc\<close>\<close>
  "split_on sep acc [] = [acc]"
| "split_on sep acc (c # cs) =
     (if sep \<noteq> [] \<and> prefix sep (c # cs)
      then acc # split_on sep [] (drop (length sep) (c # cs))
      else split_on sep (acc @ [c]) cs)"
  by pat_completeness auto
termination
  by (relation "measure (\<lambda>(sep, acc, s). length s)") auto

definition split_str :: "string \<Rightarrow> string \<Rightarrow> string list" where
  \<comment> \<open>\<open>s.split(sep)\<close>; the source passes the literal \<open>"<botbr>"\<close>, so the
      \<open>ValueError\<close> of an empty separator cannot arise\<close>
  "split_str s sep = split_on sep [] s"

fun join :: "string \<Rightarrow> string list \<Rightarrow> string" where
  "join sep [] = []"
| "join sep [x] = x"
| "join sep (x # y # ys) = x @ sep @ join sep (y # ys)"


section \<open>Reply Splitter: \<open>pop_reasoning_content\<close>\<close>

definition pop_reasoning_content :: "string option \<Rightarrow> string option \<times> string option" where
  "pop_reasoning_content content =
     (case content of
        None \<Rightarrow> (None, None)
      | Some c \<Rightarrow>
          (let think_content = match_think c
           in case think_content of
                Some t \<Rightarrow>
                  if t \<noteq> []
                  then (Some (strip (replace_str t [] c)), Some (strip t))
                  else (Some c, None)
              | None \<Rightarrow> (Some c, None)))"


section \<open>Conversation Store: bounded buffers, configuration, group state\<close>

text \<open>
  \<open>collections.deque(maxlen=n)\<close> as a list, oldest element first. An append adds
  on the right and then drops the leftmost element when the bound is exceeded;
  building a deque from a sequence keeps its last \<open>n\<close> elements.
\<close>

definition deque_append :: "nat \<Rightarrow> 'a list \<Rightarrow> 'a \<Rightarrow> 'a list" where
  "deque_append maxlen d x = (let d' = d @ [x] in if maxlen < length d' then tl d' else d')"

definition deque_new :: "nat \<Rightarrow> 'a list \<Rightarrow> 'a list" where
  "deque_new maxlen xs = drop (length xs - maxlen) xs"

text \<open>
  The module \<open>config\<close> is not part of the sources at hand: the settings the modelled
  code reads are the fields of a record. Of \<open>api_presets\<close> only the names are read here.
\<close>

record Config =
  default_preset :: string
  history_size :: nat
  past_events_size :: nat
  random_trigger_prob :: real
  api_presets :: "string list"

text \<open>What the modelled code reads of an inbound \<open>GroupMessageEvent\<close>.\<close>

record GroupMessageEvent =
  group_id :: int
  user_id :: int
  message_id :: int
  to_me :: bool

text \<open>A history entry is the dictionary \<open>{"role": ..., "content": ...}\<close>.\<close>

record turn =
  role :: string
  content :: string

text \<open>
  \<open>class GroupState\<close>. The queue is an unbounded \<open>asyncio.Queue\<close>, oldest event
  first; \<open>last_active\<close> is the float of \<open>time.time()\<close> and is only stored and copied.
\<close>

record GroupState =
  preset_name :: string
  history :: "turn list"
  queue :: "GroupMessageEvent list"
  processing :: bool
  last_active :: real
  past_events :: "GroupMessageEvent list"
  group_prompt :: "string option"
  output_reasoning_content :: bool

text \<open>The exceptions that the modelled code raises by itself and does not catch.\<close>

datatype py_error =
    IndexError
  | KeyError string
  | ValueError
  | TypeError
  | AttributeError
  | JSONDecodeError
  | IllTyped  \<comment> \<open>a value that Python would store unchecked and the typed state cannot hold\<close>

definition GroupState_init :: "Config \<Rightarrow> real \<Rightarrow> GroupState" where
  \<comment> \<open>\<open>GroupState.__init__\<close>, \<open>now\<close> being the value of \<open>time.time()\<close>\<close>
  "GroupState_init cfg now =
     \<lparr>preset_name = default_preset cfg,
      history = deque_new (history_size cfg) [],
      queue = [],
      processing = False,
      last_active = now,
      past_events = deque_new (past_events_size cfg) [],
      group_prompt = None,
      output_reasoning_content = False\<rparr>"


section \<open>Admission rule and Dispatcher\<close>

text \<open>
  The functions below take \<open>state\<close>, the value of \<open>group_states[event.group_id]\<close>,
  and return it updated. \<open>rnd\<close> is the value \<open>random.random()\<close> draws.
\<close>

definition is_triggered ::
  "Config \<Rightarrow> GroupState \<Rightarrow> GroupMessageEvent \<Rightarrow> real \<Rightarrow> bool \<times> GroupState" where
  "is_triggered cfg state event rnd =
     (if preset_name state = ''off'' then (False, state)
      else
        let state = state\<lparr>past_events :=
                      deque_append (past_events_size cfg) (past_events state) event\<rparr>
        in if to_me event then (True, state)
           else if rnd < random_trigger_prob cfg then (True, state)
           else (False, state))"

definition handle_message :: "GroupState \<Rightarrow> GroupMessageEvent \<Rightarrow> GroupState \<times> bool" where
  \<comment> \<open>the second component tells whether a \<open>process_messages\<close> task was created\<close>
  "handle_message state event =
     (let state = state\<lparr>queue := queue state @ [event]\<rparr>
      in if \<not> processing state then (state\<lparr>processing := True\<rparr>, True)
         else (state, False))"

definition handler ::
  "Config \<Rightarrow> GroupState \<Rightarrow> GroupMessageEvent \<Rightarrow> real \<Rightarrow> GroupState \<times> bool" where
  \<comment> \<open>\<open>on_message(rule=Rule(is_triggered))\<close>: \<open>handle_message\<close> runs when the rule holds\<close>
  "handler cfg state event rnd =
     (case is_triggered cfg state event rnd of
        (True, state') \<Rightarrow> handle_message state' event
      | (False, state') \<Rightarrow> (state', False))"


section \<open>Group Worker: \<open>process_messages\<close>\<close>

text \<open>
  The chat-completion call is the environment's. Its result is either an exception
  raised before a response is there (by the call, or while the request is built), given
  by its text \<open>str(e)\<close>, or the list \<open>response.choices\<close> of messages. The sends
  to the conversation are taken to return normally.
\<close>

datatype ChatMessage =
  ChatMessage (message_content: "string option") (message_reasoning: "string option")

type_synonym completion = "string + ChatMessage list"

text \<open>
  What the worker sends to the conversation: \<open>Send r\<close> is \<open>handler.send(Message(r))\<close>,
  and \<open>SendFailure e\<close> is the send of the \<open>except\<close> branch, the fixed
  service-unavailable notice followed by a line break and \<open>str(e)\<close>.
\<close>

datatype outbound = Send string | SendFailure string

datatype control = Continue | Break

definition segments :: "string \<Rightarrow> string list" where
  \<comment> \<open>the texts the \<open>for r in reply.split("<botbr>")\<close> loop sends\<close>
  "segments reply =
     map strip (filter (\<lambda>r. \<not> (length r = 0 \<or> isspace r)) (split_str reply ''<botbr>''))"

definition apply_response ::
  "Config \<Rightarrow> GroupState \<Rightarrow> string \<Rightarrow> ChatMessage list \<Rightarrow> control \<times> GroupState \<times> outbound list" where
  \<comment> \<open>the \<open>try\<close> block from the return of the call on\<close>
  "apply_response cfg state content' choices =
     (let state = state\<lparr>history := deque_append (history_size cfg) (history state)
                                      \<lparr>role = ''user'', content = content'\<rparr>,
                        past_events := []\<rparr>
      in case choices of
           [] \<Rightarrow> (Continue, state, [SendFailure ''list index out of range''])
         | message # _ \<Rightarrow>
             (let (reply, matched_reasoning_content) =
                    pop_reasoning_content (message_content message);
                  reasoning_content =
                    (case message_reasoning message of
                       Some r \<Rightarrow> if r \<noteq> [] then Some r else matched_reasoning_content
                     | None \<Rightarrow> matched_reasoning_content);
                  sent =
                    (if output_reasoning_content state
                     then (case reasoning_content of
                             Some r \<Rightarrow> if r \<noteq> [] then [Send r] else []
                           | None \<Rightarrow> [])
                     else [])
              in case reply of
                   None \<Rightarrow> (Continue, state, sent @ [SendFailure []])
                 | Some reply' \<Rightarrow>
                     (Continue,
                      state\<lparr>history := deque_append (history_size cfg) (history state)
                                          \<lparr>role = ''assistant'', content = reply'\<rparr>\<rparr>,
                      sent @ map Send (segments reply'))))"

definition process_batch ::
  "Config \<Rightarrow> (GroupMessageEvent \<Rightarrow> string) \<Rightarrow> GroupState \<Rightarrow> completion
     \<Rightarrow> control \<times> GroupState \<times> outbound list" where
  \<comment> \<open>one pass of the \<open>while\<close> loop, entered with a non-empty queue;
      \<open>response\<close> is what the call of this pass gives when it is made\<close>
  "process_batch cfg format_message state response =
     (let state = state\<lparr>queue := tl (queue state)\<rparr>
      in if length (past_events state) < 1 then (Break, state, [])
         else
           let content' = join '','' (map format_message (past_events state))
           in case response of
                Inl e \<Rightarrow> (Continue, state, [SendFailure e])
              | Inr choices \<Rightarrow> apply_response cfg state content' choices)"

lemma queue_apply_response:
  "queue (fst (snd (apply_response cfg state c choices))) = queue state"
  by (simp add: apply_response_def Let_def split: list.split option.split prod.split)

lemma queue_process_batch:
  "queue (fst (snd (process_batch cfg fmt state response))) = tl (queue state)"
  by (simp add: process_batch_def Let_def queue_apply_response split: sum.split)

function message_loop ::
  "Config \<Rightarrow> (GroupMessageEvent \<Rightarrow> string) \<Rightarrow> (nat \<Rightarrow> completion) \<Rightarrow> nat \<Rightarrow> GroupState
     \<Rightarrow> GroupState \<times> outbound list" where
  \<comment> \<open>the \<open>while\<close> loop of \<open>process_messages\<close> and the assignment after it;
      \<open>llm i\<close> is the result of the call of pass \<open>i\<close>\<close>
  "message_loop cfg format_message llm i state =
     (if queue state = [] then (state\<lparr>processing := False\<rparr>, [])
      else
        let (ctl, state', out) = process_batch cfg format_message state (llm i)
        in if ctl = Break then (state'\<lparr>processing := False\<rparr>, out)
           else
             let (state'', out') = message_loop cfg format_message llm (Suc i) state'
             in (state'', out @ out'))"
  by pat_completeness auto
termination
proof (relation "measure (\<lambda>(cfg, fmt, llm, i, state). length (queue state))")
  show "wf (measure (\<lambda>(cfg, fmt, llm, i, state). length (queue state)))"
    by simp
next
  fix cfg :: Config and format_message :: "GroupMessageEvent \<Rightarrow> string"
    and llm :: "nat \<Rightarrow> completion" and i :: nat and state :: GroupState
    and x :: "control \<times> GroupState \<times> outbound list"
    and ctl :: control and y :: "GroupState \<times> outbound list"
    and state' :: GroupState and out :: "outbound list"
  assume q: "queue state \<noteq> []"
    and x: "x = process_batch cfg format_message state (llm i)"
    and c: "(ctl, y) = x" and y: "(state', out) = y"
  from x c y have "state' = fst (snd (process_batch cfg format_message state (llm i)))"
    by (metis fst_conv snd_conv)
  then have "queue state' = tl (queue state)"
    by (simp add: queue_process_batch)
  with q show "((cfg, format_message, llm, Suc i, state'), (cfg, format_message, llm, i, state))
      \<in> measure (\<lambda>(cfg, fmt, llm, i, state). length (queue state))"
    by (cases "queue state") simp_all
qed

declare message_loop.simps [simp del]

definition get_preset :: "Config \<Rightarrow> GroupState \<Rightarrow> py_error + string" where
  \<comment> \<open>the preset of the group, here its name; \<open>api_presets[0]\<close> raises on an empty list\<close>
  "get_preset cfg state =
     (case find (\<lambda>preset. preset = preset_name state) (api_presets cfg) of
        Some preset \<Rightarrow> Inr preset
      | None \<Rightarrow> (case api_presets cfg of [] \<Rightarrow> Inl IndexError | preset # _ \<Rightarrow> Inr preset))"

definition process_messages ::
  "Config \<Rightarrow> (GroupMessageEvent \<Rightarrow> string) \<Rightarrow> (nat \<Rightarrow> completion) \<Rightarrow> GroupState
     \<Rightarrow> py_error + GroupState \<times> outbound list" where
  \<comment> \<open>the task of one activation\<close>
  "process_messages cfg format_message llm state =
     (case get_preset cfg state of
        Inl e \<Rightarrow> Inl e
      | Inr preset \<Rightarrow> Inr (message_loop cfg format_message llm 0 state))"


section \<open>Administrative commands\<close>

definition handle_preset :: "Config \<Rightarrow> GroupState \<Rightarrow> string \<Rightarrow> GroupState" where
  "handle_preset cfg state args =
     (let preset_name' = strip args
      in if preset_name' = ''off'' then state\<lparr>preset_name := preset_name'\<rparr>
         else if preset_name' \<notin> set (api_presets cfg) then state
         else state\<lparr>preset_name := preset_name'\<rparr>)"

definition handle_edit_preset :: "GroupState \<Rightarrow> string \<Rightarrow> GroupState" where
  "handle_edit_preset state args = state\<lparr>group_prompt := Some (strip args)\<rparr>"

definition handle_reset :: "GroupState \<Rightarrow> GroupState" where
  "handle_reset state = state\<lparr>past_events := [], history := []\<rparr>"

definition handle_think :: "GroupState \<Rightarrow> GroupState" where
  "handle_think state =
     state\<lparr>output_reasoning_content := \<not> output_reasoning_content state\<rparr>"


section \<open>Snapshot Manager: \<open>save_state\<close> and \<open>load_state\<close>\<close>

text \<open>
  The snapshot file holds one JSON value. \<open>json.dumps\<close> and \<open>json.loads\<close> are taken
  as inverse on the text of the file, so the file is modelled by the JSON value itself.
  The keys of \<open>group_states\<close> are integers: \<open>json.dumps\<close> writes them as decimal
  strings and \<open>load_state\<close> reads them back with \<open>int(gid)\<close>.
\<close>

datatype json =
    JNull
  | JBool bool
  | JNumber real
  | JString string
  | JArray "json list"
  | JObject "(string \<times> json) list"

definition digit_char :: "nat \<Rightarrow> char" where
  "digit_char d = char_of (48 + d)"

fun str_nat :: "nat \<Rightarrow> string" where
  "str_nat n = (if n < 10 then [digit_char n] else str_nat (n div 10) @ [digit_char (n mod 10)])"

declare str_nat.simps [simp del]

definition str_int :: "int \<Rightarrow> string" where
  \<comment> \<open>\<open>str(i)\<close>\<close>
  "str_int i = (if i < 0 then CHR ''-'' # str_nat (nat (- i)) else str_nat (nat i))"

definition is_digit :: "char \<Rightarrow> bool" where
  "is_digit c = (48 \<le> (of_char c :: nat) \<and> (of_char c :: nat) \<le> 57)"

definition digit_val :: "char \<Rightarrow> nat" where
  "digit_val c = of_char c - 48"

fun parse_digits :: "nat \<Rightarrow> string \<Rightarrow> nat option" where
  \<comment> \<open>the digits after the first one; a single underscore may stand between two digits\<close>
  "parse_digits acc [] = Some acc"
| "parse_digits acc [c] = (if is_digit c then Some (10 * acc + digit_val c) else None)"
| "parse_digits acc (c # d # ds) =
     (if is_digit c then parse_digits (10 * acc + digit_val c) (d # ds)
      else if c = CHR ''_'' \<and> is_digit d then parse_digits (10 * acc + digit_val d) ds
      else None)"

definition parse_nat :: "string \<Rightarrow> nat option" where
  "parse_nat s =
     (case s of
        [] \<Rightarrow> None
      | c # cs \<Rightarrow> if is_digit c then parse_digits (digit_val c) cs else None)"

definition int_of_str :: "string \<Rightarrow> py_error + int" where
  \<comment> \<open>\<open>int(s)\<close> on a string of code points below 256\<close>
  "int_of_str s =
     (case strip s of
        [] \<Rightarrow> Inl ValueError
      | c # cs \<Rightarrow>
          (case (if c = CHR ''-'' then map_option (\<lambda>n. - int n) (parse_nat cs)
                 else if c = CHR ''+'' then map_option int (parse_nat cs)
                 else map_option int (parse_nat (c # cs))) of
             None \<Rightarrow> Inl ValueError
           | Some i \<Rightarrow> Inr i))"

definition bind_err :: "'e + 'a \<Rightarrow> ('a \<Rightarrow> 'e + 'b) \<Rightarrow> 'e + 'b" where
  \<comment> \<open>sequencing of steps that may raise\<close>
  "bind_err m f = (case m of Inl e \<Rightarrow> Inl e | Inr x \<Rightarrow> f x)"

definition get_item :: "json \<Rightarrow> string \<Rightarrow> py_error + json" where
  \<comment> \<open>\<open>obj[key]\<close>; of a repeated key \<open>json.loads\<close> keeps the last value\<close>
  "get_item obj key =
     (case obj of
        JObject items \<Rightarrow>
          (case map_of (rev items) key of None \<Rightarrow> Inl (KeyError key) | Some v \<Rightarrow> Inr v)
      | _ \<Rightarrow> Inl TypeError)"

definition as_string :: "json \<Rightarrow> py_error + string" where
  "as_string j = (case j of JString s \<Rightarrow> Inr s | _ \<Rightarrow> Inl IllTyped)"

definition as_opt_string :: "json \<Rightarrow> py_error + string option" where
  "as_opt_string j = (case j of JNull \<Rightarrow> Inr None | JString s \<Rightarrow> Inr (Some s) | _ \<Rightarrow> Inl IllTyped)"

definition as_number :: "json \<Rightarrow> py_error + real" where
  "as_number j = (case j of JNumber x \<Rightarrow> Inr x | _ \<Rightarrow> Inl IllTyped)"

definition as_bool :: "json \<Rightarrow> py_error + bool" where
  "as_bool j = (case j of JBool b \<Rightarrow> Inr b | _ \<Rightarrow> Inl IllTyped)"

definition turn_to_json :: "turn \<Rightarrow> json" where
  "turn_to_json t = JObject [(''role'', JString (role t)), (''content'', JString (content t))]"

definition turn_of_json :: "json \<Rightarrow> py_error + turn" where
  "turn_of_json j =
     (case j of
        JObject items \<Rightarrow>
          (case (map_of (rev items) ''role'', map_of (rev items) ''content'') of
             (Some (JString r), Some (JString c)) \<Rightarrow> Inr \<lparr>role = r, content = c\<rparr>
           | _ \<Rightarrow> Inl IllTyped)
      | _ \<Rightarrow> Inl IllTyped)"

fun turns_of_json :: "json list \<Rightarrow> py_error + turn list" where
  "turns_of_json [] = Inr []"
| "turns_of_json (j # js) =
     bind_err (turn_of_json j) (\<lambda>t. bind_err (turns_of_json js) (\<lambda>ts. Inr (t # ts)))"

definition as_turns :: "json \<Rightarrow> py_error + turn list" where
  "as_turns j = (case j of JArray js \<Rightarrow> turns_of_json js | _ \<Rightarrow> Inl IllTyped)"

definition state_to_json :: "GroupState \<Rightarrow> json" where
  "state_to_json state =
     JObject
       [(''preset'', JString (preset_name state)),
        (''history'', JArray (map turn_to_json (history state))),
        (''last_active'', JNumber (last_active state)),
        (''group_prompt'', (case group_prompt state of None \<Rightarrow> JNull | Some p \<Rightarrow> JString p)),
        (''output_reasoning_content'', JBool (output_reasoning_content state))]"

definition save_state :: "(int \<times> GroupState) list \<Rightarrow> json" where
  \<comment> \<open>the value written to the file; \<open>group_states\<close> is the dictionary in insertion order\<close>
  "save_state group_states =
     JObject (map (\<lambda>(gid, state). (str_int gid, state_to_json state)) group_states)"

definition state_of_json :: "Config \<Rightarrow> real \<Rightarrow> json \<Rightarrow> py_error + GroupState" where
  \<comment> \<open>the body of the loop of \<open>load_state\<close> up to the assignment to \<open>group_states\<close>\<close>
  "state_of_json cfg now state_data =
     (let state = GroupState_init cfg now
      in bind_err (bind_err (get_item state_data ''preset'') as_string) (\<lambda>preset.
         bind_err (bind_err (get_item state_data ''history'') as_turns) (\<lambda>hist.
         bind_err (bind_err (get_item state_data ''last_active'') as_number) (\<lambda>active.
         bind_err (bind_err (get_item state_data ''group_prompt'') as_opt_string) (\<lambda>prompt.
         bind_err (bind_err (get_item state_data ''output_reasoning_content'') as_bool) (\<lambda>flag.
           Inr (state\<lparr>preset_name := preset,
                      history := deque_new (history_size cfg) hist,
                      last_active := active,
                      group_prompt := prompt,
                      output_reasoning_content := flag\<rparr>)))))))"

fun load_items ::
  "Config \<Rightarrow> real \<Rightarrow> (string \<times> json) list \<Rightarrow> (int \<times> GroupState) list
     \<Rightarrow> py_error + (int \<times> GroupState) list" where
  "load_items cfg now [] group_states = Inr group_states"
| "load_items cfg now ((gid, state_data) # rest) group_states =
     bind_err (state_of_json cfg now state_data) (\<lambda>state.
     bind_err (int_of_str gid) (\<lambda>g.
       load_items cfg now rest (AList.update g state group_states)))"

datatype data_file =
    NoFile  \<comment> \<open>the data file does not exist\<close>
  | Invalid  \<comment> \<open>its text is not JSON\<close>
  | Content json

definition load_state ::
  "Config \<Rightarrow> real \<Rightarrow> data_file \<Rightarrow> (int \<times> GroupState) list
     \<Rightarrow> py_error + (int \<times> GroupState) list" where
  "load_state cfg now file group_states =
     (case file of
        NoFile \<Rightarrow> Inr group_states
      | Invalid \<Rightarrow> Inl JSONDecodeError
      | Content data \<Rightarrow>
          (case data of
             JObject items \<Rightarrow> load_items cfg now items group_states
           | _ \<Rightarrow> Inl AttributeError))"


section \<open>Sequences of handler invocations and worker activations\<close>

text \<open>
  What acts on the state of one group: an inbound message passing through the rule and
  the handler, a run of the task the handler created, and the four commands. A run of
  the task is taken as one step here, the calls it awaits included: these are the
  schedules in which a task, once it runs, ends before the next handler does. The
  schedules in which handlers run while the task awaits are those of the next section.
\<close>

datatype action =
    Inbound GroupMessageEvent real
  | Worker "nat \<Rightarrow> completion"
  | Command_preset string
  | Command_edit string
  | Command_reset
  | Command_think

definition step ::
  "Config \<Rightarrow> (GroupMessageEvent \<Rightarrow> string) \<Rightarrow> GroupState \<Rightarrow> action
     \<Rightarrow> GroupState \<times> outbound list" where
  "step cfg format_message state a =
     (case a of
        Inbound event rnd \<Rightarrow> (fst (handler cfg state event rnd), [])
      | Worker llm \<Rightarrow>
          if processing state
          then (case process_messages cfg format_message llm state of
                  Inl e \<Rightarrow> (state, [])
                | Inr result \<Rightarrow> result)
          else (state, [])
      | Command_preset args \<Rightarrow> (handle_preset cfg state args, [])
      | Command_edit args \<Rightarrow> (handle_edit_preset state args, [])
      | Command_reset \<Rightarrow> (handle_reset state, [])
      | Command_think \<Rightarrow> (handle_think state, []))"

fun run ::
  "Config \<Rightarrow> (GroupMessageEvent \<Rightarrow> string) \<Rightarrow> GroupState \<Rightarrow> action list
     \<Rightarrow> GroupState \<times> outbound list" where
  "run cfg format_message state [] = (state, [])"
| "run cfg format_message state (a # as) =
     (let (state', out) = step cfg format_message state a;
          (state'', out') = run cfg format_message state' as
      in (state'', out @ out'))"

fun deliver ::
  "Config \<Rightarrow> GroupState \<Rightarrow> (GroupMessageEvent \<times> real) list \<Rightarrow> GroupState \<times> nat" where
  \<comment> \<open>a stream of inbound messages; the count is the number of tasks created\<close>
  "deliver cfg state [] = (state, 0)"
| "deliver cfg state ((event, rnd) # rest) =
     (let (state', spawned) = handler cfg state event rnd;
          (state'', n) = deliver cfg state' rest
      in (state'', (if spawned then 1 else 0) + n))"


section \<open>The worker between its awaits\<close>

text \<open>
  A coroutine gives way to other handlers only where it awaits. The task of
  \<open>process_messages\<close> awaits the call of the model, the sends and the sleep between
  them, and the send of the failure notice; \<open>queue.get()\<close> returns at once on the
  non-empty queue. A task is described by the await it is suspended in, and a step of
  it runs the code from there to the next await.
\<close>

datatype task =
    Created  \<comment> \<open>made by \<open>asyncio.create_task\<close>, not yet run\<close>
  | AwaitCall string  \<comment> \<open>in the call of the model, with the content built for it\<close>
  | AwaitSends string  \<comment> \<open>in the sends of a reply, which is stored after them\<close>
  | AwaitNotice  \<comment> \<open>in the send of the failure notice\<close>


definition receive ::
  "Config \<Rightarrow> GroupState \<Rightarrow> string \<Rightarrow> completion \<Rightarrow> GroupState \<times> outbound list \<times> task" where
  \<comment> \<open>from the return of the call to the next await; the messages are listed as
      they will be sent\<close>
  "receive cfg state content' response =
     (case response of
        Inl e \<Rightarrow> (state, [SendFailure e], AwaitNotice)
      | Inr choices \<Rightarrow>
          (let state = state\<lparr>history := deque_append (history_size cfg) (history state)
                                           \<lparr>role = ''user'', content = content'\<rparr>,
                             past_events := []\<rparr>
           in case choices of
                [] \<Rightarrow> (state, [SendFailure ''list index out of range''], AwaitNotice)
              | message # _ \<Rightarrow>
                  (let (reply, matched_reasoning_content) =
                         pop_reasoning_content (message_content message);
                       reasoning_content =
                         (case message_reasoning message of
                            Some r \<Rightarrow> if r \<noteq> [] then Some r else matched_reasoning_content
                          | None \<Rightarrow> matched_reasoning_content);
                       sent =
                         (if output_reasoning_content state
                          then (case reasoning_content of
                                  Some r \<Rightarrow> if r \<noteq> [] then [Send r] else []
                                | None \<Rightarrow> [])
                          else [])
                   in case reply of
                        None \<Rightarrow> (state, sent @ [SendFailure []], AwaitNotice)
                      | Some reply' \<Rightarrow>
                          (state, sent @ map Send (segments reply'), AwaitSends reply'))))"







section \<open>Predicates of the claims\<close>

definition bounded :: "Config \<Rightarrow> GroupState \<Rightarrow> bool" where
  "bounded cfg state =
     (length (history state) \<le> history_size cfg
      \<and> length (past_events state) \<le> past_events_size cfg)"

definition alternating :: "turn list \<Rightarrow> bool" where
  \<comment> \<open>only user and assistant turns, and no two neighbours of the same role\<close>
  "alternating h =
     (list_all (\<lambda>t. role t = ''user'' \<or> role t = ''assistant'') h
      \<and> distinct_adj (map role h))"

definition answered :: "turn list \<Rightarrow> bool" where
  \<comment> \<open>the history is empty or its last turn is the assistant's\<close>
  "answered h = (h = [] \<or> role (last h) = ''assistant'')"

fun is_failure :: "outbound \<Rightarrow> bool" where
  "is_failure (SendFailure e) = True"
| "is_failure (Send r) = False"

definition no_failure :: "outbound list \<Rightarrow> bool" where
  \<comment> \<open>every batch succeeded: no pass ended in the \<open>except\<close> branch\<close>
  "no_failure out = (filter is_failure out = [])"




definition reloaded :: "Config \<Rightarrow> real \<Rightarrow> GroupState \<Rightarrow> GroupState" where
  \<comment> \<open>a fresh state with the five saved fields of \<open>state\<close>\<close>
  "reloaded cfg now state =
     (GroupState_init cfg now)
       \<lparr>preset_name := preset_name state,
        history := deque_new (history_size cfg) (history state),
        last_active := last_active state,
        group_prompt := group_prompt state,
        output_reasoning_content := output_reasoning_content state\<rparr>"


section \<open>A concrete configuration and state\<close>

definition example_cfg :: Config where
  "example_cfg = \<lparr>default_preset = ''main'', history_size = 4, past_events_size = 3,
                   random_trigger_prob = 0, api_presets = [''main'']\<rparr>"

definition example_event :: GroupMessageEvent where
  "example_event = \<lparr>group_id = 7, user_id = 11, message_id = 1, to_me = True\<rparr>"

definition example_render :: "GroupMessageEvent \<Rightarrow> string" where
  "example_render event = ''m''"

definition example_state :: GroupState where
  \<comment> \<open>a fresh state after one admitted message: a task has been created\<close>
  "example_state = (GroupState_init example_cfg 0)
      \<lparr>queue := [example_event], processing := True, past_events := [example_event]\<rparr>"


definition example_off :: GroupState where
  \<comment> \<open>a fresh state of a group that has been switched off\<close>
  "example_off = (GroupState_init example_cfg 0)\<lparr>preset_name := ''off''\<rparr>"


definition example_reply :: "nat \<Rightarrow> completion" where
  "example_reply i = Inr [ChatMessage (Some ''Hi<botbr>there'') None]"

definition example_actions :: "action list" where
  \<comment> \<open>three messages, each answered by a run of the worker\<close>
  "example_actions =
     [Inbound example_event 0, Worker example_reply,
      Inbound example_event 0, Worker example_reply,
      Inbound example_event 0, Worker example_reply]"

definition example_second :: GroupMessageEvent where
  "example_second = \<lparr>group_id = 7, user_id = 12, message_id = 2, to_me = True\<rparr>"

definition example_third :: GroupMessageEvent where
  "example_third = \<lparr>group_id = 7, user_id = 13, message_id = 3, to_me = True\<rparr>"

definition render_id :: "GroupMessageEvent \<Rightarrow> string" where
  "render_id event =
     (if message_id event = 1 then ''one'' else if message_id event = 2 then ''two''
      else ''three'')"

definition example_no_content :: "nat \<Rightarrow> completion" where
  "example_no_content i = Inr [ChatMessage None None]"

definition example_saved :: GroupState where
  \<comment> \<open>a state in the middle of its work, none of its saved fields at its default\<close>
  "example_saved =
     \<lparr>preset_name = ''alt'',
      history = [\<lparr>role = ''user'', content = ''q''\<rparr>, \<lparr>role = ''assistant'', content = ''r''\<rparr>],
      queue = [example_event],
      processing = True,
      last_active = 5,
      past_events = [example_event],
      group_prompt = Some ''cat'',
      output_reasoning_content = True\<rparr>"

definition example_saved_states :: "(int \<times> GroupState) list" where
  "example_saved_states = [(- 3, example_saved), (7, example_off)]"





section \<open>Properties of the Reply Splitter\<close>

lemma strip_no_space:
  assumes "s \<noteq> []" and "\<not> is_space (hd s)" and "\<not> is_space (last s)"
  shows "strip s = s"
proof -
  from assms obtain c cs where s: "s = c # cs" by (cases s) auto
  with assms have 1: "dropWhile is_space s = s" by simp
  from assms have "rev s \<noteq> []" and "\<not> is_space (hd (rev s))"
    by (simp_all add: hd_rev)
  then have 2: "dropWhile is_space (rev s) = rev s"
    by (cases "rev s") auto
  show ?thesis by (simp add: strip_def 1 2)
qed

text \<open>
  C1. For a response that begins with a \<open><think>...</think>\<close> block the function is
  meant to return the inner text as reasoning and the text without the whole block as
  visible reply. It removes the inner text only, wherever it occurs: on the input
  \<open><think>plan</think>Hello<botbr>World\<close> the two tags stay in the visible reply, and
  on \<open><think>a</think>banana\<close> the reply loses every \<open>a\<close> as well.
\<close>

theorem pop_reasoning_content_keeps_tags:
  "pop_reasoning_content (Some ''<think>plan</think>Hello<botbr>World'')
     = (Some ''<think></think>Hello<botbr>World'', Some ''plan'')
   \<and> pop_reasoning_content (Some ''<think>a</think>banana'')
       = (Some ''<think></think>bnn'', Some ''a'')"
proof -
  have m: "match_think ''<think>plan</think>Hello<botbr>World'' = Some ''plan''"
    and m': "match_think ''<think>a</think>banana'' = Some ''a''"
    by (simp_all add: match_think_def)
  have r: "replace_str ''plan'' [] ''<think>plan</think>Hello<botbr>World''
             = ''<think></think>Hello<botbr>World''"
    and r': "replace_str ''a'' [] ''<think>a</think>banana'' = ''<think></think>bnn''"
    by simp_all
  have s1: "strip ''<think></think>Hello<botbr>World'' = ''<think></think>Hello<botbr>World''"
    by (rule strip_no_space) (simp_all add: is_space_def)
  have s2: "strip ''plan'' = ''plan''"
    by (rule strip_no_space) (simp_all add: is_space_def)
  have s1': "strip ''<think></think>bnn'' = ''<think></think>bnn''"
    by (rule strip_no_space) (simp_all add: is_space_def)
  have s2': "strip ''a'' = ''a''"
    by (rule strip_no_space) (simp_all add: is_space_def)
  have "pop_reasoning_content (Some ''<think>plan</think>Hello<botbr>World'')
          = (Some ''<think></think>Hello<botbr>World'', Some ''plan'')"
    by (simp only: pop_reasoning_content_def option.case Let_def m r s1 s2) simp
  moreover have "pop_reasoning_content (Some ''<think>a</think>banana'')
          = (Some ''<think></think>bnn'', Some ''a'')"
    by (simp only: pop_reasoning_content_def option.case Let_def m' r' s1' s2') simp
  ultimately show ?thesis by simp
qed

text \<open>
  C10. When the leading think block is empty, that is the text begins with
  \<open><think></think>\<close>, no reasoning is extracted and the text is returned as it is,
  the empty tags included.
\<close>

theorem pop_reasoning_content_empty_think:
  "pop_reasoning_content (Some (''<think></think>'' @ rest))
     = (Some (''<think></think>'' @ rest), None)"
  by (simp add: pop_reasoning_content_def match_think_def)

section \<open>Properties of one pass of the Group Worker\<close>

lemmas example_defs =
  GroupState_init_def example_cfg_def example_event_def example_second_def example_third_def
  example_render_def render_id_def example_reply_def example_no_content_def example_state_def

lemmas pass_defs =
  handler_def is_triggered_def handle_message_def process_messages_def get_preset_def
  process_batch_def apply_response_def deque_append_def deque_new_def Let_def

lemma process_batch_failed_call:
  assumes "past_events state \<noteq> []"
  shows "process_batch cfg fmt state (Inl e)
           = (Continue, state\<lparr>queue := tl (queue state)\<rparr>, [SendFailure e])"
  using assms by (cases "past_events state") (simp_all add: process_batch_def Let_def)

lemma pop_reasoning_content_Some:
  "\<exists>reply matched. pop_reasoning_content (Some text) = (Some reply, matched)"
  by (simp add: pop_reasoning_content_def Let_def split: option.split)

lemma length_deque_append: "length d \<le> n \<Longrightarrow> length (deque_append n d x) \<le> n"
  by (auto simp: deque_append_def Let_def)

lemma last_deque_append: "0 < n \<Longrightarrow> last (deque_append n d x) = x"
  by (cases d) (auto simp: deque_append_def Let_def)

text \<open>
  C3. A pass whose model call raises (timeout, transport failure or backend error, all
  of them an exception \<open>e\<close> of the call) leaves \<open>history\<close> and \<open>past_events\<close> as they
  were, sends exactly one message, the failure notice, and the loop goes on with the
  next pass on the rest of the queue.
\<close>

theorem failed_call_keeps_state:
  assumes "queue state \<noteq> []" and "past_events state \<noteq> []" and "llm i = Inl e"
  shows "process_batch cfg fmt state (llm i)
           = (Continue, state\<lparr>queue := tl (queue state)\<rparr>, [SendFailure e])
         \<and> history (state\<lparr>queue := tl (queue state)\<rparr>) = history state
         \<and> past_events (state\<lparr>queue := tl (queue state)\<rparr>) = past_events state
         \<and> message_loop cfg fmt llm i state
             = (case message_loop cfg fmt llm (Suc i) (state\<lparr>queue := tl (queue state)\<rparr>) of
                  (state', out) \<Rightarrow> (state', SendFailure e # out))"
proof -
  have b: "process_batch cfg fmt state (llm i)
             = (Continue, state\<lparr>queue := tl (queue state)\<rparr>, [SendFailure e])"
    using assms(2,3) by (simp add: process_batch_failed_call)
  have "message_loop cfg fmt llm i state
          = (case message_loop cfg fmt llm (Suc i) (state\<lparr>queue := tl (queue state)\<rparr>) of
               (state', out) \<Rightarrow> (state', SendFailure e # out))"
    using assms(1) by (subst message_loop.simps) (simp add: b split: prod.split)
  with b show ?thesis by simp
qed

theorem failed_call_keeps_state_witness:
  "message_loop example_cfg example_render (\<lambda>i. Inl ''timed out'') 0 example_state
     = (example_state\<lparr>queue := [], processing := False\<rparr>, [SendFailure ''timed out''])"
proof -
  have q: "queue example_state \<noteq> []" and p: "past_events example_state \<noteq> []"
    by (simp_all add: example_state_def)
  have l: "(\<lambda>i::nat. (Inl ''timed out'' :: completion)) 0 = Inl ''timed out''"
    by simp
  have t: "tl (queue example_state) = []"
    by (simp add: example_state_def)
  have r: "message_loop example_cfg example_render (\<lambda>i. Inl ''timed out'') (Suc 0)
             (example_state\<lparr>queue := []\<rparr>)
           = (example_state\<lparr>queue := [], processing := False\<rparr>, [])"
    by (subst message_loop.simps) simp
  from failed_call_keeps_state [OF q p l, of example_cfg example_render]
  show ?thesis by (simp add: t r)
qed

lemma stored_turn_is_returned_reply:
  assumes "past_events state \<noteq> []" and "message_content message = Some text"
  shows "\<exists>reply matched sent state'.
           pop_reasoning_content (Some text) = (Some reply, matched)
         \<and> process_batch cfg fmt state (Inr (message # others))
             = (Continue, state', sent @ map Send (segments reply))
         \<and> (sent = [] \<or> (\<exists>r. sent = [Send r]))
         \<and> history state'
             = deque_append (history_size cfg)
                 (deque_append (history_size cfg) (history state)
                    \<lparr>role = ''user'', content = join '','' (map fmt (past_events state))\<rparr>)
                 \<lparr>role = ''assistant'', content = reply\<rparr>
         \<and> (0 < history_size cfg
              \<longrightarrow> last (history state') = \<lparr>role = ''assistant'', content = reply\<rparr>)"
proof -
  obtain reply matched where p: "pop_reasoning_content (Some text) = (Some reply, matched)"
    using pop_reasoning_content_Some by blast
  from assms(1) have len: "\<not> length (past_events state) < 1"
    by (cases "past_events state") simp_all
  show ?thesis
    using p assms(2) len
    by (auto simp: process_batch_def apply_response_def Let_def last_deque_append
             split: option.split)
qed

lemma pop_think_plan:
  "pop_reasoning_content (Some ''<think>plan</think>Hello<botbr>World'')
     = (Some ''<think></think>Hello<botbr>World'', Some ''plan'')"
proof -
  have m: "match_think ''<think>plan</think>Hello<botbr>World'' = Some ''plan''"
    by (simp add: match_think_def)
  have r: "replace_str ''plan'' [] ''<think>plan</think>Hello<botbr>World''
             = ''<think></think>Hello<botbr>World''"
    by simp
  have s1: "strip ''<think></think>Hello<botbr>World'' = ''<think></think>Hello<botbr>World''"
    by (rule strip_no_space) (simp_all add: is_space_def)
  have s2: "strip ''plan'' = ''plan''"
    by (rule strip_no_space) (simp_all add: is_space_def)
  show ?thesis
    by (simp only: pop_reasoning_content_def option.case Let_def m r s1 s2) simp
qed

lemma segments_think:
  "segments ''<think></think>Hello<botbr>World'' = [''<think></think>Hello'', ''World'']"
  by (simp add: segments_def split_str_def isspace_def strip_def is_space_def)

text \<open>
  C7. The assistant turn appended to \<open>history\<close> is the text that
  \<open>pop_reasoning_content\<close> returns, before the split on \<open><botbr>\<close>. For a response
  with a leading think block that text is not the reply without the block: on
  \<open><think>plan</think>Hello<botbr>World\<close> the turn stored is
  \<open><think></think>Hello<botbr>World\<close>, the two tags included, and the first message
  sent carries them as well.
\<close>

theorem stored_turn_keeps_think_tags:
  "process_batch example_cfg example_render example_state
     (Inr [ChatMessage (Some ''<think>plan</think>Hello<botbr>World'') None])
   = (Continue,
      example_state
        \<lparr>history := [\<lparr>role = ''user'', content = ''m''\<rparr>,
                     \<lparr>role = ''assistant'', content = ''<think></think>Hello<botbr>World''\<rparr>],
         queue := [], past_events := []\<rparr>,
      [Send ''<think></think>Hello'', Send ''World''])"
  by (simp add: example_defs pass_defs pop_think_plan segments_think)

section \<open>Properties of the admission rule\<close>

lemma handler_off:
  "preset_name state = ''off'' \<Longrightarrow> handler cfg state event rnd = (state, False)"
  by (simp add: handler_def is_triggered_def)

lemma deliver_off:
  "preset_name state = ''off'' \<Longrightarrow> deliver cfg state events = (state, 0)"
  by (induction events) (auto simp: handler_off)

text \<open>
  C8. While \<open>preset_name\<close> is \<open>"off"\<close> the rule is false for every inbound message:
  whatever the stream of messages, nothing is put on the queue, the \<open>processing\<close> flag
  stays as it is and no task is created.
\<close>

theorem off_admits_nothing:
  assumes "preset_name state = ''off''"
  shows "handler cfg state event rnd = (state, False)
         \<and> queue (fst (deliver cfg state events)) = queue state
         \<and> processing (fst (deliver cfg state events)) = processing state
         \<and> snd (deliver cfg state events) = 0"
  using assms by (simp add: handler_off deliver_off)

theorem off_admits_nothing_witness:
  "queue (fst (deliver example_cfg example_off [(example_event, 0), (example_event, 1)])) = []
   \<and> processing (fst (deliver example_cfg example_off [(example_event, 0), (example_event, 1)]))
       = False
   \<and> snd (deliver example_cfg example_off [(example_event, 0), (example_event, 1)]) = 0"
proof -
  have off: "preset_name example_off = ''off''"
    by (simp add: example_off_def)
  have q: "queue example_off = []" and p: "processing example_off = False"
    by (simp_all add: example_off_def GroupState_init_def)
  from off_admits_nothing [OF off, of example_cfg example_event 0
        "[(example_event, 0), (example_event, 1)]"]
  show ?thesis
    by (simp only: q p)
qed

lemma run_Inbound_off:
  "preset_name state = ''off'' \<Longrightarrow>
   run cfg fmt state (map (\<lambda>(event, rnd). Inbound event rnd) events @ later) = run cfg fmt state later"
  by (induction events) (auto simp: step_def handler_off)

text \<open>
  C9. While \<open>preset_name\<close> is \<open>"off"\<close> the rule returns before it records the
  message: \<open>past_events\<close> is unchanged, and whatever happens later (the preset switched
  back on, further messages, runs of the worker) runs as if the messages received
  meanwhile had never come.
\<close>

theorem off_records_nothing:
  assumes "preset_name state = ''off''"
  shows "is_triggered cfg state event rnd = (False, state)
         \<and> past_events (fst (deliver cfg state events)) = past_events state
         \<and> run cfg fmt state (map (\<lambda>(event, rnd). Inbound event rnd) events @ later)
             = run cfg fmt state later"
  using assms by (simp add: is_triggered_def deliver_off run_Inbound_off)


theorem off_records_nothing_witness:
  "run example_cfg example_render example_off
     [Inbound example_event 0, Inbound example_event 1, Command_preset ''main'']
   = (example_off\<lparr>preset_name := ''main''\<rparr>, [])"
proof -
  have off: "preset_name example_off = ''off''"
    by (simp add: example_off_def)
  have s: "strip ''main'' = ''main''"
    by (rule strip_no_space) (simp_all add: is_space_def)
  have r: "run example_cfg example_render example_off [Command_preset ''main'']
             = (example_off\<lparr>preset_name := ''main''\<rparr>, [])"
    by (simp add: step_def handle_preset_def s example_cfg_def)
  from off_records_nothing [OF off, of example_cfg example_event 0
        "[(example_event, 0), (example_event, 1)]" example_render "[Command_preset ''main'']"] r
  show ?thesis by simp
qed

section \<open>The worker loop unfolded, and the bounds of the buffers\<close>

lemma length_deque_new: "length (deque_new n xs) \<le> n"
  by (simp add: deque_new_def)

lemma deque_append_full: "length d = n \<Longrightarrow> 0 < n \<Longrightarrow> deque_append n d x = tl d @ [x]"
  by (cases d) (simp_all add: deque_append_def Let_def)

lemma bounded_apply_response:
  "bounded cfg state \<Longrightarrow> bounded cfg (fst (snd (apply_response cfg state c choices)))"
  by (simp add: apply_response_def Let_def bounded_def length_deque_append
           split: list.split option.split prod.split)

lemma bounded_queue_update: "bounded cfg (state\<lparr>queue := q\<rparr>) = bounded cfg state"
  by (simp add: bounded_def)

lemma bounded_processing_update: "bounded cfg (state\<lparr>processing := b\<rparr>) = bounded cfg state"
  by (simp add: bounded_def)

lemma bounded_process_batch:
  "bounded cfg state \<Longrightarrow> bounded cfg (fst (snd (process_batch cfg fmt state response)))"
  by (simp add: process_batch_def Let_def bounded_apply_response bounded_queue_update
           split: sum.split)

lemma message_loop_empty:
  "queue state = [] \<Longrightarrow>
   message_loop cfg fmt llm i state = (state\<lparr>processing := False\<rparr>, [])"
  by (subst message_loop.simps) simp

lemma message_loop_break:
  "queue state \<noteq> [] \<Longrightarrow> process_batch cfg fmt state (llm i) = (Break, state', out) \<Longrightarrow>
   message_loop cfg fmt llm i state = (state'\<lparr>processing := False\<rparr>, out)"
  by (subst message_loop.simps) simp

lemma message_loop_continue:
  "queue state \<noteq> [] \<Longrightarrow> process_batch cfg fmt state (llm i) = (Continue, state', out) \<Longrightarrow>
   message_loop cfg fmt llm i state
     = (fst (message_loop cfg fmt llm (Suc i) state'),
        out @ snd (message_loop cfg fmt llm (Suc i) state'))"
  by (subst message_loop.simps) (simp add: case_prod_beta)

lemma run_Cons:
  "run cfg fmt state (a # as)
     = (fst (run cfg fmt (fst (step cfg fmt state a)) as),
        snd (step cfg fmt state a) @ snd (run cfg fmt (fst (step cfg fmt state a)) as))"
  by (simp add: case_prod_beta)

lemma bounded_message_loop:
  "bounded cfg state \<Longrightarrow> bounded cfg (fst (message_loop cfg fmt llm i state))"
proof (induction cfg fmt llm i state rule: message_loop.induct)
  case (1 cfg fmt llm i state)
  show ?case
  proof (cases "queue state = []")
    case True
    with "1.prems" show ?thesis
      by (simp add: message_loop_empty bounded_processing_update)
  next
    case False
    obtain ctl state' out where b: "process_batch cfg fmt state (llm i) = (ctl, state', out)"
      by (cases "process_batch cfg fmt state (llm i)") auto
    have s': "bounded cfg state'"
      using bounded_process_batch [OF "1.prems", of fmt "llm i"] b by simp
    show ?thesis
    proof (cases ctl)
      case Break
      with False b s' show ?thesis
        by (simp add: message_loop_break bounded_processing_update)
    next
      case Continue
      then have nb: "ctl \<noteq> Break" by simp
      have "bounded cfg (fst (message_loop cfg fmt llm (Suc i) state'))"
        using "1.IH" [OF False b [symmetric] refl refl nb s'] .
      with False b Continue show ?thesis
        by (simp add: message_loop_continue)
    qed
  qed
qed

lemma step_Worker:
  "step cfg fmt state (Worker llm) = (state, [])
   \<or> step cfg fmt state (Worker llm) = message_loop cfg fmt llm 0 state"
  by (simp add: step_def process_messages_def split: sum.split)

lemma bounded_handler:
  "bounded cfg state \<Longrightarrow> bounded cfg (fst (handler cfg state event rnd))"
  by (auto simp: handler_def is_triggered_def handle_message_def Let_def bounded_def
                 length_deque_append)

lemma bounded_step:
  "bounded cfg state \<Longrightarrow> bounded cfg (fst (step cfg fmt state a))"
proof (cases a)
  case (Inbound event rnd)
  assume "bounded cfg state"
  with Inbound show ?thesis by (simp add: step_def bounded_handler)
next
  case (Worker llm)
  assume "bounded cfg state"
  with Worker step_Worker [of cfg fmt state llm] bounded_message_loop [of cfg state fmt llm 0]
  show ?thesis by auto
qed (simp_all add: step_def handle_preset_def handle_edit_preset_def handle_reset_def
       handle_think_def Let_def bounded_def)

lemma bounded_run:
  "bounded cfg state \<Longrightarrow> bounded cfg (fst (run cfg fmt state acts))"
proof (induction acts arbitrary: state)
  case Nil
  then show ?case by simp
next
  case (Cons a acts)
  from bounded_step [OF Cons.prems, of fmt a]
  have "bounded cfg (fst (run cfg fmt (fst (step cfg fmt state a)) acts))"
    by (rule Cons.IH)
  then show ?case
    by (simp only: run_Cons fst_conv)
qed

lemma bounded_init: "bounded cfg (GroupState_init cfg now)"
  by (simp add: bounded_def GroupState_init_def deque_new_def)

section \<open>Alternation of the roles\<close>

text \<open>
  A pass that ends without a failure notice either leaves \<open>history\<close> as it is or
  appends a user turn and an assistant turn: from a history that alternates and does
  not end with a user turn, such passes keep the alternation. The pass that breaks it is
  the one that fails after the user turn is stored.
\<close>

lemma alternating_Nil: "alternating []"
  by (simp add: alternating_def)

lemma alternating_snoc:
  "alternating (h @ [t]) \<longleftrightarrow>
     alternating h \<and> (role t = ''user'' \<or> role t = ''assistant'')
     \<and> (h = [] \<or> role (last h) \<noteq> role t)"
  by (cases "h = []") (auto simp: alternating_def distinct_adj_append_iff last_map)

lemma alternating_tl: "alternating h \<Longrightarrow> alternating (tl h)"
  by (cases h) (auto simp: alternating_def dest: distinct_adj_ConsD)

lemma alternating_deque_append:
  assumes "alternating h" and "role t = ''user'' \<or> role t = ''assistant''"
    and "h = [] \<or> role (last h) \<noteq> role t"
  shows "alternating (deque_append n h t)"
proof -
  from assms have "alternating (h @ [t])"
    by (simp add: alternating_snoc)
  then show ?thesis
    by (simp add: deque_append_def Let_def alternating_tl del: tl_append2)
qed

lemma deque_append_last: "deque_append n h t = [] \<or> last (deque_append n h t) = t"
  by (cases h) (auto simp: deque_append_def Let_def)

lemma no_failure_simps:
  "no_failure []" "no_failure (Send r # out) = no_failure out"
  "\<not> no_failure (SendFailure e # out)" "no_failure (out @ out') = (no_failure out \<and> no_failure out')"
  "no_failure (map Send rs)"
  by (simp_all add: no_failure_def filter_empty_conv)

lemma apply_response_success:
  assumes "apply_response cfg state c choices = (ctl, state', out)" and "no_failure out"
  shows "\<exists>reply. history state'
           = deque_append (history_size cfg)
               (deque_append (history_size cfg) (history state) \<lparr>role = ''user'', content = c\<rparr>)
               \<lparr>role = ''assistant'', content = reply\<rparr>"
proof (cases choices)
  case Nil
  with assms show ?thesis
    by (auto simp: apply_response_def Let_def no_failure_simps)
next
  case (Cons message others)
  obtain reply matched where p: "pop_reasoning_content (message_content message) = (reply, matched)"
    by (cases "pop_reasoning_content (message_content message)") auto
  show ?thesis
  proof (cases reply)
    case None
    from assms(1) have "out \<noteq> [] \<and> last out = SendFailure []"
      by (auto simp: apply_response_def Let_def Cons p None)
    then have "\<not> no_failure out"
      by (cases out rule: rev_cases) (auto simp: no_failure_simps)
    with assms(2) show ?thesis by simp
  next
    case (Some reply')
    from assms(1) show ?thesis
      by (auto simp: apply_response_def Let_def Cons p Some)
  qed
qed

lemma process_batch_success:
  assumes "process_batch cfg fmt state response = (ctl, state', out)" and "no_failure out"
  shows "history state' = history state
         \<or> (\<exists>c reply. history state'
               = deque_append (history_size cfg)
                   (deque_append (history_size cfg) (history state) \<lparr>role = ''user'', content = c\<rparr>)
                   \<lparr>role = ''assistant'', content = reply\<rparr>)"
proof (cases "length (past_events state) < 1")
  case True
  with assms(1) show ?thesis
    by (auto simp: process_batch_def Let_def)
next
  case False
  show ?thesis
  proof (cases response)
    case (Inl e)
    with False assms show ?thesis
      by (auto simp: process_batch_def Let_def no_failure_simps)
  next
    case (Inr choices)
    with False assms(1)
    have "apply_response cfg (state\<lparr>queue := tl (queue state)\<rparr>)
            (join '','' (map fmt (past_events state))) choices = (ctl, state', out)"
      by (simp add: process_batch_def Let_def)
    from apply_response_success [OF this assms(2)] show ?thesis
      by auto
  qed
qed

lemma alternating_pair:
  assumes "alternating h" and "answered h"
  shows "alternating (deque_append n (deque_append n h \<lparr>role = ''user'', content = c\<rparr>)
                        \<lparr>role = ''assistant'', content = r\<rparr>)
         \<and> answered (deque_append n (deque_append n h \<lparr>role = ''user'', content = c\<rparr>)
                        \<lparr>role = ''assistant'', content = r\<rparr>)"
proof -
  define u where "u = \<lparr>role = ''user'', content = c\<rparr>"
  define a where "a = \<lparr>role = ''assistant'', content = r\<rparr>"
  define h1 where "h1 = deque_append n h u"
  have h1: "alternating h1"
    unfolding h1_def using assms
    by (intro alternating_deque_append) (auto simp: u_def answered_def)
  have l1: "h1 = [] \<or> role (last h1) = ''user''"
    using deque_append_last [of n h u] by (auto simp: h1_def u_def)
  have "alternating (deque_append n h1 a)"
    using h1 l1 by (intro alternating_deque_append) (auto simp: a_def)
  moreover have "answered (deque_append n h1 a)"
    using deque_append_last [of n h1 a] by (auto simp: answered_def a_def)
  ultimately show ?thesis
    by (simp add: h1_def u_def a_def)
qed

lemma successful_pass:
  assumes "alternating (history state)" and "answered (history state)"
    and "process_batch cfg fmt state response = (ctl, state', out)" and "no_failure out"
  shows "alternating (history state') \<and> answered (history state')"
  using process_batch_success [OF assms(3,4)] assms(1,2) alternating_pair [OF assms(1,2)]
  by auto

lemma successful_message_loop:
  "alternating (history state) \<Longrightarrow> answered (history state) \<Longrightarrow>
   no_failure (snd (message_loop cfg fmt llm i state)) \<Longrightarrow>
   alternating (history (fst (message_loop cfg fmt llm i state)))
   \<and> answered (history (fst (message_loop cfg fmt llm i state)))"
proof (induction cfg fmt llm i state rule: message_loop.induct)
  case (1 cfg fmt llm i state)
  show ?case
  proof (cases "queue state = []")
    case True
    with "1.prems" show ?thesis
      by (simp add: message_loop_empty)
  next
    case False
    obtain ctl state' out where b: "process_batch cfg fmt state (llm i) = (ctl, state', out)"
      by (cases "process_batch cfg fmt state (llm i)") auto
    show ?thesis
    proof (cases ctl)
      case Break
      with False b "1.prems"(3) have "no_failure out"
        by (simp add: message_loop_break)
      from successful_pass [OF "1.prems"(1,2) b this] False b Break show ?thesis
        by (simp add: message_loop_break)
    next
      case Continue
      then have nb: "ctl \<noteq> Break" by simp
      from False b Continue "1.prems"(3)
      have nf: "no_failure out"
        and nf': "no_failure (snd (message_loop cfg fmt llm (Suc i) state'))"
        by (simp_all add: message_loop_continue no_failure_simps)
      from successful_pass [OF "1.prems"(1,2) b nf]
      have "alternating (history state')" and "answered (history state')"
        by simp_all
      from "1.IH" [OF False b [symmetric] refl refl nb this nf'] False b Continue
      show ?thesis
        by (simp add: message_loop_continue)
    qed
  qed
qed

lemma history_handler: "history (fst (handler cfg state event rnd)) = history state"
  by (auto simp: handler_def is_triggered_def handle_message_def Let_def)

lemma successful_step:
  assumes "alternating (history state)" and "answered (history state)"
    and "no_failure (snd (step cfg fmt state a))"
  shows "alternating (history (fst (step cfg fmt state a)))
         \<and> answered (history (fst (step cfg fmt state a)))"
proof (cases a)
  case (Inbound event rnd)
  with assms show ?thesis by (simp add: step_def history_handler)
next
  case (Worker llm)
  with assms successful_message_loop [of state cfg fmt llm 0]
    step_Worker [of cfg fmt state llm]
  show ?thesis by auto
next
  case (Command_preset args)
  with assms show ?thesis by (simp add: step_def handle_preset_def Let_def)
next
  case (Command_edit args)
  with assms show ?thesis by (simp add: step_def handle_edit_preset_def)
next
  case Command_reset
  then show ?thesis
    by (simp add: step_def handle_reset_def alternating_Nil answered_def)
next
  case Command_think
  with assms show ?thesis by (simp add: step_def handle_think_def)
qed

lemma successful_run:
  "alternating (history state) \<Longrightarrow> answered (history state) \<Longrightarrow>
   no_failure (snd (run cfg fmt state acts)) \<Longrightarrow>
   alternating (history (fst (run cfg fmt state acts)))
   \<and> answered (history (fst (run cfg fmt state acts)))"
proof (induction acts arbitrary: state)
  case Nil
  then show ?case by simp
next
  case (Cons a acts)
  from Cons.prems(3)
  have nf: "no_failure (snd (step cfg fmt state a))"
    and nf': "no_failure (snd (run cfg fmt (fst (step cfg fmt state a)) acts))"
    by (simp_all only: run_Cons snd_conv no_failure_simps)
  from successful_step [OF Cons.prems(1,2) nf]
  have "alternating (history (fst (step cfg fmt state a)))"
    and "answered (history (fst (step cfg fmt state a)))"
    by simp_all
  from Cons.IH [OF this nf'] show ?case
    by (simp only: run_Cons fst_conv)
qed

lemma example_segments: "segments ''Hi<botbr>there'' = [''Hi'', ''there'']"
  by (simp add: segments_def split_str_def isspace_def strip_def is_space_def)

lemma example_pop:
  "pop_reasoning_content (Some ''Hi<botbr>there'') = (Some ''Hi<botbr>there'', None)"
  by (simp add: pop_reasoning_content_def match_think_def)

lemma pop_None: "pop_reasoning_content None = (None, None)"
  by (simp add: pop_reasoning_content_def)

text \<open>
  C2. The turns of \<open>history\<close> are meant to alternate between user and assistant.
  The user turn is stored as soon as the call has returned, before the reply is read:
  when the response carries no text (or no choice at all) the pass ends in the
  \<open>except\<close> branch with the user turn stored and no assistant turn after it, and the
  next batch stores a second user turn next to it.
\<close>

theorem unanswered_user_turn_repeats:
  "run example_cfg example_render (GroupState_init example_cfg 0)
     [Inbound example_event 0, Worker example_no_content,
      Inbound example_event 0, Worker example_reply]
   = ((GroupState_init example_cfg 0)
        \<lparr>history := [\<lparr>role = ''user'', content = ''m''\<rparr>,
                     \<lparr>role = ''user'', content = ''m''\<rparr>,
                     \<lparr>role = ''assistant'', content = ''Hi<botbr>there''\<rparr>]\<rparr>,
      [SendFailure [], Send ''Hi'', Send ''there''])
   \<and> \<not> alternating
         (history (fst (run example_cfg example_render (GroupState_init example_cfg 0)
            [Inbound example_event 0, Worker example_no_content,
             Inbound example_event 0, Worker example_reply])))"
proof -
  have r: "run example_cfg example_render (GroupState_init example_cfg 0)
     [Inbound example_event 0, Worker example_no_content,
      Inbound example_event 0, Worker example_reply]
   = ((GroupState_init example_cfg 0)
        \<lparr>history := [\<lparr>role = ''user'', content = ''m''\<rparr>,
                     \<lparr>role = ''user'', content = ''m''\<rparr>,
                     \<lparr>role = ''assistant'', content = ''Hi<botbr>there''\<rparr>]\<rparr>,
      [SendFailure [], Send ''Hi'', Send ''there''])"
    by (simp add: step_def example_defs pass_defs message_loop.simps pop_None
          example_segments example_pop)
  show ?thesis
    by (simp only: r fst_conv) (simp add: alternating_def)
qed

section \<open>Decimal keys of the snapshot\<close>

lemma digit_char_props:
  assumes "d < 10"
  shows "is_digit (digit_char d)" and "digit_val (digit_char d) = d"
    and "\<not> is_space (digit_char d)" and "digit_char d \<noteq> CHR ''-''"
    and "digit_char d \<noteq> CHR ''+''"
proof -
  from assms have m: "(48 + d) mod 256 = 48 + d" by simp
  have o: "of_char (digit_char d) = 48 + d"
    by (simp add: digit_char_def m)
  show "is_digit (digit_char d)" using assms by (simp add: is_digit_def o)
  show "digit_val (digit_char d) = d" by (simp add: digit_val_def o)
  show "\<not> is_space (digit_char d)" using assms by (auto simp: is_space_def o)
  show "digit_char d \<noteq> CHR ''-''"
  proof
    assume "digit_char d = CHR ''-''"
    then have "of_char (digit_char d) = (of_char (CHR ''-'') :: nat)" by simp
    then show False by (simp add: o)
  qed
  show "digit_char d \<noteq> CHR ''+''"
  proof
    assume "digit_char d = CHR ''+''"
    then have "of_char (digit_char d) = (of_char (CHR ''+'') :: nat)" by simp
    then show False by (simp add: o)
  qed
qed

lemma parse_digits_all_digits:
  "list_all is_digit ds \<Longrightarrow>
   parse_digits acc ds = Some (foldl (\<lambda>a c. 10 * a + digit_val c) acc ds)"
  by (induction acc ds rule: parse_digits.induct) simp_all

lemma parse_nat_all_digits:
  "ds \<noteq> [] \<Longrightarrow> list_all is_digit ds \<Longrightarrow>
   parse_nat ds = Some (foldl (\<lambda>a c. 10 * a + digit_val c) 0 ds)"
  by (cases ds) (simp_all add: parse_nat_def parse_digits_all_digits)

lemma str_nat_digits:
  "str_nat n \<noteq> [] \<and> list_all is_digit (str_nat n)
   \<and> foldl (\<lambda>a c. 10 * a + digit_val c) 0 (str_nat n) = n"
proof (induction n rule: str_nat.induct)
  case (1 n)
  show ?case
  proof (cases "n < 10")
    case True
    then show ?thesis
      by (subst (1 2 3) str_nat.simps) (simp add: digit_char_props)
  next
    case False
    with 1 have IH: "list_all is_digit (str_nat (n div 10))"
      "foldl (\<lambda>a c. 10 * a + digit_val c) 0 (str_nat (n div 10)) = n div 10"
      by simp_all
    have d: "n mod 10 < 10" by simp
    from False IH show ?thesis
      by (subst (1 2 3) str_nat.simps) (simp add: digit_char_props [OF d])
  qed
qed

lemma parse_nat_str_nat: "parse_nat (str_nat n) = Some n"
  using str_nat_digits [of n] by (simp add: parse_nat_all_digits)

lemma str_nat_ends:
  "is_digit (hd (str_nat n)) \<and> is_digit (last (str_nat n))"
proof -
  from str_nat_digits [of n]
  have ne: "str_nat n \<noteq> []" and all: "\<forall>c \<in> set (str_nat n). is_digit c"
    by (simp_all add: list_all_iff)
  from ne have "hd (str_nat n) \<in> set (str_nat n)" and "last (str_nat n) \<in> set (str_nat n)"
    by simp_all
  with all show ?thesis by blast
qed

lemma is_digit_not_space: "is_digit c \<Longrightarrow> \<not> is_space c"
  by (auto simp: is_digit_def is_space_def)

lemma is_digit_not_sign: "is_digit c \<Longrightarrow> c \<noteq> CHR ''-'' \<and> c \<noteq> CHR ''+''"
  by (auto simp: is_digit_def)

lemma strip_str_int: "strip (str_int i) = str_int i"
proof (rule strip_no_space)
  have ne: "str_nat k \<noteq> []" for k
    using str_nat_digits [of k] by simp
  show "str_int i \<noteq> []"
    by (simp add: str_int_def ne)
  have "\<not> is_space CHR ''-''"
    by (simp add: is_space_def)
  then show "\<not> is_space (hd (str_int i))"
    using str_nat_ends [of "nat i"] by (simp add: str_int_def is_digit_not_space)
  show "\<not> is_space (last (str_int i))"
    using str_nat_ends [of "nat i"] str_nat_ends [of "nat (- i)"]
    by (simp add: str_int_def is_digit_not_space ne)
qed

lemma int_of_str_str_int: "int_of_str (str_int i) = Inr i"
proof (cases "i < 0")
  case True
  then show ?thesis
    by (simp add: int_of_str_def strip_str_int) (simp add: str_int_def parse_nat_str_nat)
next
  case False
  have s: "str_int i = str_nat (nat i)"
    using False by (simp add: str_int_def)
  obtain c cs where cs: "str_nat (nat i) = c # cs"
    using str_nat_digits [of "nat i"] by (cases "str_nat (nat i)") auto
  have c: "is_digit c"
    using str_nat_ends [of "nat i"] by (simp add: cs)
  have p: "parse_nat (c # cs) = Some (nat i)"
    using parse_nat_str_nat [of "nat i"] by (simp add: cs)
  have "strip (c # cs) = c # cs"
    using strip_str_int [of i] by (simp add: s cs)
  then have "int_of_str (c # cs) = Inr i"
    using False is_digit_not_sign [OF c] p by (simp add: int_of_str_def)
  then show ?thesis
    by (simp add: s cs)
qed

section \<open>Properties of the Snapshot Manager\<close>

lemma turn_of_json_turn_to_json: "turn_of_json (turn_to_json t) = Inr t"
  by (simp add: turn_of_json_def turn_to_json_def)

lemma turns_of_json_map: "turns_of_json (map turn_to_json h) = Inr h"
  by (induction h) (simp_all add: turn_of_json_turn_to_json bind_err_def)

lemma state_of_json_state_to_json:
  "state_of_json cfg now (state_to_json state) = Inr (reloaded cfg now state)"
  by (simp add: state_of_json_def state_to_json_def get_item_def bind_err_def as_string_def
        as_turns_def as_number_def as_opt_string_def as_bool_def turns_of_json_map
        reloaded_def Let_def split: option.split)

lemma load_items_saved:
  "load_items cfg now (map (\<lambda>(gid, state). (str_int gid, state_to_json state)) gs) old
     = Inr (foldl (\<lambda>acc (g, s). AList.update g (reloaded cfg now s) acc) old gs)"
  by (induction gs arbitrary: old)
     (auto simp: bind_err_def state_of_json_state_to_json int_of_str_str_int)

lemma map_of_foldl_update_other:
  "g \<notin> fst ` set gs \<Longrightarrow>
   map_of (foldl (\<lambda>acc (g, s). AList.update g (f s) acc) old gs) g = map_of old g"
  by (induction gs arbitrary: old) (auto simp: update_conv)

lemma map_of_foldl_update:
  "distinct (map fst gs) \<Longrightarrow> (g, s) \<in> set gs \<Longrightarrow>
   map_of (foldl (\<lambda>acc (g, s). AList.update g (f s) acc) old gs) g = Some (f s)"
proof (induction gs arbitrary: old)
  case Nil
  then show ?case by simp
next
  case (Cons x gs)
  show ?case
  proof (cases "x = (g, s)")
    case True
    with Cons.prems(1) have "g \<notin> fst ` set gs" by auto
    with True show ?thesis
      by (simp add: map_of_foldl_update_other update_conv)
  next
    case False
    with Cons.prems have "distinct (map fst gs)" and "(g, s) \<in> set gs" by auto
    from Cons.IH [OF this] show ?thesis
      by (simp add: case_prod_beta)
  qed
qed

lemma deque_new_short: "length xs \<le> n \<Longrightarrow> deque_new n xs = xs"
  by (simp add: deque_new_def)

text \<open>
  C5. Saving the states of all groups and loading the snapshot again gives, for every
  group, a state with the same \<open>history\<close>, \<open>preset_name\<close>, \<open>group_prompt\<close> and
  \<open>output_reasoning_content\<close>; the queue comes back empty and \<open>processing\<close> false.
  The saved history is within \<open>history_size\<close>, as every history kept in the bounded
  buffer is.
\<close>

theorem snapshot_round_trip:
  assumes "distinct (map fst group_states)" and "(gid, state) \<in> set group_states"
    and "length (history state) \<le> history_size cfg"
  shows "\<exists>loaded state'.
           load_state cfg now (Content (save_state group_states)) old = Inr loaded
         \<and> map_of loaded gid = Some state'
         \<and> history state' = history state
         \<and> preset_name state' = preset_name state
         \<and> group_prompt state' = group_prompt state
         \<and> output_reasoning_content state' = output_reasoning_content state
         \<and> queue state' = []
         \<and> processing state' = False"
proof -
  define loaded where
    "loaded = foldl (\<lambda>acc (g, s). AList.update g (reloaded cfg now s) acc) old group_states"
  have l: "load_state cfg now (Content (save_state group_states)) old = Inr loaded"
    by (simp add: load_state_def save_state_def load_items_saved loaded_def)
  have m: "map_of loaded gid = Some (reloaded cfg now state)"
    unfolding loaded_def using assms(1,2) by (rule map_of_foldl_update)
  have "history (reloaded cfg now state) = history state"
    using assms(3) by (simp add: reloaded_def deque_new_short)
  with l m show ?thesis
    by (simp add: reloaded_def GroupState_init_def)
qed

theorem snapshot_round_trip_witness:
  "\<exists>loaded state'.
      load_state example_cfg 1 (Content (save_state example_saved_states)) [] = Inr loaded
    \<and> map_of loaded (- 3) = Some state'
    \<and> history state'
        = [\<lparr>role = ''user'', content = ''q''\<rparr>, \<lparr>role = ''assistant'', content = ''r''\<rparr>]
    \<and> preset_name state' = ''alt''
    \<and> group_prompt state' = Some ''cat''
    \<and> output_reasoning_content state' = True
    \<and> queue state' = []
    \<and> processing state' = False"
proof -
  have d: "distinct (map fst example_saved_states)"
    and m: "(- 3, example_saved) \<in> set example_saved_states"
    by (simp_all add: example_saved_states_def)
  have l: "length (history example_saved) \<le> history_size example_cfg"
    by (simp add: example_saved_def example_cfg_def)
  have f: "history example_saved
             = [\<lparr>role = ''user'', content = ''q''\<rparr>, \<lparr>role = ''assistant'', content = ''r''\<rparr>]"
    "preset_name example_saved = ''alt''" "group_prompt example_saved = Some ''cat''"
    "output_reasoning_content example_saved = True"
    by (simp_all add: example_saved_def)
  from snapshot_round_trip [OF d m l, of 1 "[]"] show ?thesis
    by (simp only: f)
qed

lemma bounded_state_of_json:
  "state_of_json cfg now j = Inr state \<Longrightarrow> bounded cfg state"
  by (auto simp: state_of_json_def bind_err_def Let_def bounded_def GroupState_init_def
                 deque_new_def split: sum.splits)

lemma set_alist_update: "set (AList.update k v al) \<subseteq> insert (k, v) (set al)"
  by (induction al) auto

lemma bounded_load_items:
  "load_items cfg now items old = Inr loaded \<Longrightarrow> list_all (\<lambda>(g, s). bounded cfg s) old \<Longrightarrow>
   list_all (\<lambda>(g, s). bounded cfg s) loaded"
proof (induction items arbitrary: old)
  case Nil
  then show ?case by simp
next
  case (Cons x items)
  obtain gid j where x: "x = (gid, j)" by (cases x)
  from Cons.prems(1) obtain state g where
    s: "state_of_json cfg now j = Inr state" and g: "int_of_str gid = Inr g"
    and r: "load_items cfg now items (AList.update g state old) = Inr loaded"
    by (auto simp: x bind_err_def split: sum.splits)
  have "set (AList.update g state old) \<subseteq> insert (g, state) (set old)"
    by (rule set_alist_update)
  with Cons.prems(2) bounded_state_of_json [OF s]
  have "list_all (\<lambda>(g, s). bounded cfg s) (AList.update g state old)"
    by (auto simp: list_all_iff)
  with r show ?case by (rule Cons.IH)
qed

lemma bounded_load_state:
  "load_state cfg now file old = Inr loaded \<Longrightarrow> list_all (\<lambda>(g, s). bounded cfg s) old \<Longrightarrow>
   list_all (\<lambda>(g, s). bounded cfg s) loaded"
  by (auto simp: load_state_def bounded_load_items split: data_file.splits json.splits)

text \<open>
  C6. \<open>history\<close> never holds more than \<open>history_size\<close> turns and
  \<open>past_events\<close> never more than \<open>past_events_size\<close> events: the bounds hold in a
  fresh state and after every sequence of inbound messages, commands and runs of the
  worker; each single append keeps the bound and, on a full buffer, drops the oldest
  element; and a reloaded snapshot keeps the last \<open>history_size\<close> turns of a saved
  history, however long that was.
\<close>

theorem buffers_bounded:
  "(bounded cfg state \<longrightarrow> bounded cfg (fst (run cfg fmt state acts)))
   \<and> bounded cfg (GroupState_init cfg now)
   \<and> (length d \<le> n \<longrightarrow> length (deque_append n d x) \<le> n)
   \<and> (length d = n \<and> 0 < n \<longrightarrow> deque_append n d x = tl d @ [x])
   \<and> (\<exists>state'. state_of_json cfg now (state_to_json saved) = Inr state'
          \<and> bounded cfg state'
          \<and> history state' = drop (length (history saved) - history_size cfg) (history saved))
   \<and> (load_state cfg now snapshot old = Inr loaded \<and> list_all (\<lambda>(g, s). bounded cfg s) old
        \<longrightarrow> list_all (\<lambda>(g, s). bounded cfg s) loaded)"
proof -
  have "state_of_json cfg now (state_to_json saved) = Inr (reloaded cfg now saved)"
    by (rule state_of_json_state_to_json)
  moreover from this have "bounded cfg (reloaded cfg now saved)"
    by (rule bounded_state_of_json)
  moreover have "history (reloaded cfg now saved)
                   = drop (length (history saved) - history_size cfg) (history saved)"
    by (simp add: reloaded_def deque_new_def)
  ultimately show ?thesis
    using bounded_run [of cfg state fmt acts] bounded_init [of cfg now]
      length_deque_append [of d n x] deque_append_full [of d n x]
      bounded_load_state [of cfg now snapshot old loaded]
    by blast
qed

theorem buffers_bounded_witness:
  "bounded example_cfg (fst (run example_cfg example_render (GroupState_init example_cfg 0)
                               example_actions))
   \<and> length (deque_append 2 [1, 2 :: nat] 3) \<le> 2
   \<and> deque_append 2 [1, 2 :: nat] 3 = [2, 3]"
proof -
  have "bounded example_cfg (GroupState_init example_cfg 0)"
    by (simp add: bounded_def GroupState_init_def deque_new_def)
  moreover have "length [1, 2 :: nat] \<le> 2" and "length [1, 2 :: nat] = 2 \<and> (0::nat) < 2"
    by simp_all
  ultimately show ?thesis
    using buffers_bounded [of example_cfg "GroupState_init example_cfg 0" example_render
        example_actions 0 "[1, 2 :: nat]" 2 3 example_state NoFile "[]" "[]"]
    by simp
qed

section \<open>One worker at a time, across the awaits\<close>


text \<open>One pass of \<open>process_batch\<close> is the return of the call followed by the store.\<close>

lemma apply_response_receive:
  "apply_response cfg state c choices
     = (case receive cfg state c (Inr choices) of
          (state', out, AwaitSends reply) \<Rightarrow>
            (Continue,
             state'\<lparr>history := deque_append (history_size cfg) (history state')
                                  \<lparr>role = ''assistant'', content = reply\<rparr>\<rparr>, out)
        | (state', out, _) \<Rightarrow> (Continue, state', out))"
  by (simp add: apply_response_def receive_def Let_def case_prod_beta
           split: list.split option.split)





















end
